theory Spec2Isabelle
  imports Complex_Main "HOL-Library.Word"
begin

section \<open>Data model\<close>

text \<open>
  Node ids are Python \<^verbatim>\<open>bytes\<close>: lists of 8-bit words, so that the empty value (which
  Python treats as false in \<^verbatim>\<open>if nodeA and ...\<close>) and the lexicographic order used by
  the priority queue are both expressible. A \<^verbatim>\<open>ShortChannelID\<close> is an 8-byte value,
  read big-endian as one 64-bit word; \<^verbatim>\<open>ShortChannelID.normalize\<close> returns an
  instance of that class unchanged.
\<close>

type_synonym bytes = "8 word list"

type_synonym ShortChannelID = "64 word"

definition normalize :: "ShortChannelID \<Rightarrow> ShortChannelID" where
  "normalize data = data"

text \<open>The exceptions the modelled functions can raise.\<close>

datatype error =
    NoChannelPolicy ShortChannelID
  | Exception string
  | KeyError bytes
  | AttributeError
  | AssertionError

text \<open>
  Distances and edge costs are Python numbers: integers, floats produced by the true
  division in the CLTV term, and \<^verbatim>\<open>float('inf')\<close>. They are modelled as exact reals
  extended by one infinite value; the rounding of binary64 arithmetic is not modelled.
\<close>

datatype cost = Finite real | Infinite

fun cost_add :: "cost \<Rightarrow> cost \<Rightarrow> cost" where
  "cost_add (Finite a) (Finite b) = Finite (a + b)"
| "cost_add _ _ = Infinite"

fun cost_less :: "cost \<Rightarrow> cost \<Rightarrow> bool" where
  "cost_less (Finite a) (Finite b) = (a < b)"
| "cost_less (Finite a) Infinite = True"
| "cost_less Infinite _ = False"

text \<open>
  Modelled from the spec: \<^verbatim>\<open>ChannelInfo\<close>, \<^verbatim>\<open>Policy\<close> and \<^verbatim>\<open>NodeInfo\<close> are
  declared in \<^verbatim>\<open>channel_db.py\<close>, which is not among the sources. The spec's data model
  gives their fields: \<^verbatim>\<open>capacity_sat: Option<u64>\<close>; \<^verbatim>\<open>fee_base_msat: u32\<close>,
  \<^verbatim>\<open>fee_proportional_millionths: u32\<close>, \<^verbatim>\<open>cltv_expiry_delta: u16\<close>,
  \<^verbatim>\<open>htlc_minimum_msat: u64\<close>, \<^verbatim>\<open>htlc_maximum_msat: Option<u64>\<close>, \<^verbatim>\<open>disabled: bool\<close>;
  \<^verbatim>\<open>features\<close> an unsigned bit field. Unsigned fields are natural numbers here.
\<close>

record ChannelInfo =
  node1_id :: bytes
  node2_id :: bytes
  capacity_sat :: "nat option"

record Policy =
  fee_base_msat :: nat
  fee_proportional_millionths :: nat
  cltv_expiry_delta :: nat
  htlc_minimum_msat :: nat
  htlc_maximum_msat :: "nat option"
  disabled :: bool

definition is_disabled :: "Policy \<Rightarrow> bool" where
  "is_disabled channel_policy = disabled channel_policy"

record NodeInfo =
  features :: nat

text \<open>
  Modelled from the spec: a local \<^verbatim>\<open>Channel\<close> (\<^verbatim>\<open>lnchannel.py\<close>, not among the
  sources) offers the two predicates \<^verbatim>\<open>can_pay(amount_msat, check_frozen)\<close> and
  \<^verbatim>\<open>can_receive(amount_msat, check_frozen)\<close>; \<^verbatim>\<open>my_channels\<close> is a dictionary from
  short channel ids to such channels.
\<close>

record Channel =
  can_pay :: "int \<Rightarrow> bool \<Rightarrow> bool"
  can_receive :: "int \<Rightarrow> bool \<Rightarrow> bool"

type_synonym LocalChannels = "ShortChannelID \<rightharpoonup> Channel"

text \<open>
  The read interface of \<^verbatim>\<open>ChannelDB\<close> that the path finder calls. The class itself is
  not among the sources, so its four methods are parameters: any functions of a fixed
  graph snapshot. \<^verbatim>\<open>get_channels_for_node\<close> yields the channels in the order the
  \<^verbatim>\<open>for\<close> loop visits them. The \<^verbatim>\<open>my_channels\<close> argument may be \<^verbatim>\<open>None\<close>.
\<close>

record ChannelDB =
  get_channels_for_node :: "bytes \<Rightarrow> LocalChannels option \<Rightarrow> ShortChannelID list"
  get_channel_info :: "ShortChannelID \<Rightarrow> LocalChannels option \<Rightarrow> ChannelInfo option"
  get_policy_for_node :: "ShortChannelID \<Rightarrow> bytes \<Rightarrow> LocalChannels option \<Rightarrow> Policy option"
  get_node_info_for_node_id :: "bytes \<Rightarrow> NodeInfo option"

record RouteEdge =
  node_id :: bytes
  short_channel_id :: ShortChannelID
  fee_base_msat :: int
  fee_proportional_millionths :: int
  cltv_expiry_delta :: int
  node_features :: int

type_synonym LNPaymentRoute = "RouteEdge list"

type_synonym path = "(bytes \<times> ShortChannelID) list"

record LNPathFinder =
  channel_db :: ChannelDB
  blacklist :: "ShortChannelID set"

section \<open>Fees and sanity checks\<close>

definition NUM_MAX_HOPS_IN_PAYMENT_PATH :: int where
  "NUM_MAX_HOPS_IN_PAYMENT_PATH = 20"

definition NUM_MAX_EDGES_IN_PAYMENT_PATH :: int where
  "NUM_MAX_EDGES_IN_PAYMENT_PATH = NUM_MAX_HOPS_IN_PAYMENT_PATH"

definition NBLOCK_CLTV_EXPIRY_TOO_FAR_INTO_FUTURE :: int where
  "NBLOCK_CLTV_EXPIRY_TOO_FAR_INTO_FUTURE = 28 * 144"

definition fee_for_edge_msat :: "int \<Rightarrow> int \<Rightarrow> int \<Rightarrow> int" where
  "fee_for_edge_msat forwarded_amount_msat base_msat proportional_millionths =
     base_msat + (forwarded_amount_msat * proportional_millionths div 1000000)"

definition fee_for_edge :: "RouteEdge \<Rightarrow> int \<Rightarrow> int" where
  "fee_for_edge self amount_msat =
     fee_for_edge_msat amount_msat (fee_base_msat self) (fee_proportional_millionths self)"

definition from_channel_policy ::
  "Policy \<Rightarrow> ShortChannelID \<Rightarrow> bytes \<Rightarrow> NodeInfo option \<Rightarrow> RouteEdge" where
  "from_channel_policy channel_policy scid end_node node_info =
     \<lparr> node_id = end_node,
       short_channel_id = normalize scid,
       fee_base_msat = int (Policy.fee_base_msat channel_policy),
       fee_proportional_millionths = int (Policy.fee_proportional_millionths channel_policy),
       cltv_expiry_delta = int (Policy.cltv_expiry_delta channel_policy),
       node_features = (case node_info of None \<Rightarrow> 0 | Some ni \<Rightarrow> int (features ni)) \<rparr>"

definition is_fee_sane :: "int \<Rightarrow> int \<Rightarrow> bool" where
  "is_fee_sane fee_msat payment_amount_msat =
     (if fee_msat \<le> 5000 then True
      else if 100 * fee_msat \<le> payment_amount_msat then True
      else False)"

definition is_sane_to_use :: "RouteEdge \<Rightarrow> int \<Rightarrow> bool" where
  "is_sane_to_use self amount_msat =
     (if cltv_expiry_delta self > 14 * 144 then False
      else if \<not> is_fee_sane (fee_for_edge self amount_msat) amount_msat then False
      else True)"

text \<open>
  The \<^verbatim>\<open>for route_edge in reversed(route[1:])\<close> loop of \<^verbatim>\<open>is_route_sane_to_use\<close>,
  over the edges it visits in visiting order: \<^verbatim>\<open>None\<close> is the early
  \<^verbatim>\<open>return False\<close>, otherwise the final \<^verbatim>\<open>(amt, cltv)\<close>.
\<close>

fun route_accumulate :: "RouteEdge list \<Rightarrow> int \<Rightarrow> int \<Rightarrow> (int \<times> int) option" where
  "route_accumulate [] amt cltv = Some (amt, cltv)"
| "route_accumulate (route_edge # rest) amt cltv =
     (if \<not> is_sane_to_use route_edge amt then None
      else route_accumulate rest (amt + fee_for_edge route_edge amt)
             (cltv + cltv_expiry_delta route_edge))"

definition is_route_sane_to_use :: "LNPaymentRoute \<Rightarrow> int \<Rightarrow> int \<Rightarrow> bool" where
  "is_route_sane_to_use route invoice_amount_msat min_final_cltv_expiry =
     (if int (length route) > NUM_MAX_EDGES_IN_PAYMENT_PATH then False
      else case route_accumulate (rev (drop 1 route)) invoice_amount_msat min_final_cltv_expiry of
        None \<Rightarrow> False
      | Some (amt, cltv) \<Rightarrow>
          (if cltv > NBLOCK_CLTV_EXPIRY_TOO_FAR_INTO_FUTURE then False
           else if \<not> is_fee_sane (amt - invoice_amount_msat) invoice_amount_msat then False
           else True))"

section \<open>The path finder\<close>

definition add_to_blacklist :: "LNPathFinder \<Rightarrow> ShortChannelID \<Rightarrow> LNPathFinder" where
  "add_to_blacklist self scid = self\<lparr> blacklist := insert scid (blacklist self) \<rparr>"

text \<open>\<^verbatim>\<open>_edge_cost\<close>: the heuristic cost of a channel and the fee for the edge.\<close>

definition edge_cost ::
  "LNPathFinder \<Rightarrow> ShortChannelID \<Rightarrow> bytes \<Rightarrow> bytes \<Rightarrow> int \<Rightarrow> bool \<Rightarrow> bool \<Rightarrow>
   LocalChannels option \<Rightarrow> cost \<times> int" where
  "edge_cost self scid start_node end_node payment_amt_msat ignore_costs is_mine my_channels =
     (case get_channel_info (channel_db self) scid my_channels of
        None \<Rightarrow> (Infinite, 0)
      | Some channel_info \<Rightarrow>
     (case get_policy_for_node (channel_db self) scid start_node my_channels of
        None \<Rightarrow> (Infinite, 0)
      | Some channel_policy \<Rightarrow>
          if is_disabled channel_policy then (Infinite, 0)
          else if payment_amt_msat < int (htlc_minimum_msat channel_policy) then (Infinite, 0)
          else if (case capacity_sat channel_info of
                     None \<Rightarrow> False
                   | Some cap \<Rightarrow> payment_amt_msat div 1000 > int cap) then (Infinite, 0)
          else if (case htlc_maximum_msat channel_policy of
                     None \<Rightarrow> False
                   | Some hmax \<Rightarrow> payment_amt_msat > int hmax) then (Infinite, 0)
          else
            let node_info = get_node_info_for_node_id (channel_db self) end_node;
                route_edge = from_channel_policy channel_policy scid end_node node_info
            in if \<not> is_sane_to_use route_edge payment_amt_msat then (Infinite, 0)
               else
                 let base_cost = 500 :: int
                 in if ignore_costs then (Finite (real_of_int base_cost), 0)
                    else
                      let fee_msat = fee_for_edge route_edge payment_amt_msat;
                          cltv_cost = real_of_int (cltv_expiry_delta route_edge * payment_amt_msat * 15)
                                        / 1000000000;
                          overall_cost = real_of_int base_cost + real_of_int fee_msat + cltv_cost
                      in (Finite overall_cost, fee_msat)))"

subsection \<open>The priority queue\<close>

text \<open>
  \<^verbatim>\<open>queue.PriorityQueue\<close> holds tuples \<^verbatim>\<open>(distance, amount_msat, node)\<close> and
  \<^verbatim>\<open>get()\<close> removes a least one under Python's tuple order: the first differing
  component decides, bytes compare lexicographically. The order is total, so the least
  tuple is unique as a value and the queue is modelled as the list of its items.
\<close>

type_synonym entry = "cost \<times> int \<times> bytes"

fun bytes_less :: "bytes \<Rightarrow> bytes \<Rightarrow> bool" where
  "bytes_less [] [] = False"
| "bytes_less [] (y # ys) = True"
| "bytes_less (x # xs) [] = False"
| "bytes_less (x # xs) (y # ys) = (if x = y then bytes_less xs ys else x < y)"

fun entry_less :: "entry \<Rightarrow> entry \<Rightarrow> bool" where
  "entry_less (d1, a1, n1) (d2, a2, n2) =
     (if d1 \<noteq> d2 then cost_less d1 d2
      else if a1 \<noteq> a2 then a1 < a2
      else bytes_less n1 n2)"

fun pq_min :: "entry \<Rightarrow> entry list \<Rightarrow> entry" where
  "pq_min m [] = m"
| "pq_min m (e # es) = pq_min (if entry_less e m then e else m) es"

definition pq_get :: "entry list \<Rightarrow> entry \<times> entry list" where
  "pq_get q = (let m = pq_min (hd q) (tl q) in (m, remove1 m q))"

definition pq_put :: "entry \<Rightarrow> entry list \<Rightarrow> entry list" where
  "pq_put e q = q @ [e]"

subsection \<open>Reverse Dijkstra\<close>

record search_state =
  distance_from_start :: "bytes \<Rightarrow> cost"
  prev_node :: "bytes \<rightharpoonup> bytes \<times> ShortChannelID"
  nodes_to_explore :: "entry list"

definition truthy :: "bytes option \<Rightarrow> bool" where
  "truthy nodeA = (case nodeA of None \<Rightarrow> False | Some b \<Rightarrow> b \<noteq> [])"

text \<open>Lines 231 to 244: cost of the edge and relaxation of its start node.\<close>

definition relax_edge ::
  "LNPathFinder \<Rightarrow> bytes option \<Rightarrow> bool \<Rightarrow> LocalChannels \<Rightarrow> int \<Rightarrow> bytes \<Rightarrow>
   ShortChannelID \<Rightarrow> bytes \<Rightarrow> bool \<Rightarrow> search_state \<Rightarrow> search_state" where
  "relax_edge self nodeA is_source my_channels amount_msat edge_endnode edge_channel_id
     edge_startnode is_mine st =
     (let (edge_cost_v, fee_for_edge_v) =
            edge_cost self edge_channel_id
              (if is_source then edge_startnode else edge_endnode)
              (if is_source then edge_endnode else edge_startnode)
              amount_msat
              (if truthy nodeA then Some edge_startnode = nodeA else False)
              is_mine (Some my_channels);
          alt_dist_to_neighbour = cost_add (distance_from_start st edge_endnode) edge_cost_v
      in if cost_less alt_dist_to_neighbour (distance_from_start st edge_startnode) then
           st\<lparr> distance_from_start := (distance_from_start st)(edge_startnode := alt_dist_to_neighbour),
               prev_node := (prev_node st)(edge_startnode \<mapsto> (edge_endnode, edge_channel_id)),
               nodes_to_explore := pq_put (alt_dist_to_neighbour, amount_msat + fee_for_edge_v, edge_startnode)
                                     (nodes_to_explore st) \<rparr>
         else st)"

text \<open>
  Lines 217 to 230, one pass of the body of the \<^verbatim>\<open>for edge_channel_id\<close> loop: the
  blacklist test, the other endpoint of the channel (reading a field of an absent
  \<^verbatim>\<open>channel_info\<close> raises \<^verbatim>\<open>AttributeError\<close>), and the test on the caller's own
  channels with its assertion.
\<close>

definition explore_edge ::
  "LNPathFinder \<Rightarrow> bytes option \<Rightarrow> bool \<Rightarrow> LocalChannels \<Rightarrow> int \<Rightarrow> bytes \<Rightarrow>
   ShortChannelID \<Rightarrow> search_state \<Rightarrow> error + search_state" where
  "explore_edge self nodeA is_source my_channels amount_msat edge_endnode edge_channel_id st =
     (if edge_channel_id \<in> blacklist self then Inr st
      else case get_channel_info (channel_db self) edge_channel_id (Some my_channels) of
        None \<Rightarrow> Inl AttributeError
      | Some channel_info \<Rightarrow>
          let edge_startnode = (if node1_id channel_info = edge_endnode
                                then node2_id channel_info else node1_id channel_info)
          in (case my_channels edge_channel_id of
                None \<Rightarrow>
                  Inr (relax_edge self nodeA is_source my_channels amount_msat edge_endnode
                         edge_channel_id edge_startnode False st)
              | Some chan \<Rightarrow>
                  if Some edge_startnode = nodeA then
                    (if \<not> can_pay chan amount_msat True then Inr st
                     else Inr (relax_edge self nodeA is_source my_channels amount_msat edge_endnode
                                 edge_channel_id edge_startnode True st))
                  else if Some edge_endnode \<noteq> nodeA then Inl AssertionError
                  else if \<not> can_receive chan amount_msat True then Inr st
                  else Inr (relax_edge self nodeA is_source my_channels amount_msat edge_endnode
                              edge_channel_id edge_startnode True st)))"

text \<open>The \<^verbatim>\<open>for\<close> loop over the channels of the popped node; an exception ends it.\<close>

fun explore_edges ::
  "(ShortChannelID \<Rightarrow> search_state \<Rightarrow> error + search_state) \<Rightarrow> ShortChannelID list \<Rightarrow>
   search_state \<Rightarrow> error + search_state" where
  "explore_edges body [] st = Inr st"
| "explore_edges body (c # cs) st =
     (case body c st of Inl e \<Rightarrow> Inl e | Inr st' \<Rightarrow> explore_edges body cs st')"

text \<open>
  The main \<^verbatim>\<open>while\<close> loop. It may run forever as far as its definition goes, so its
  value is an option: \<^verbatim>\<open>None\<close> stands for not returning.
\<close>

partial_function (option) get_distances_loop ::
  "LNPathFinder \<Rightarrow> bytes option \<Rightarrow> bool \<Rightarrow> LocalChannels \<Rightarrow> search_state \<Rightarrow>
   (error + search_state) option" where
  "get_distances_loop self nodeA is_source my_channels st =
     (if nodes_to_explore st = [] then Some (Inr st)
      else
        let popped = fst (pq_get (nodes_to_explore st));
            dist_to_edge_endnode = fst popped;
            amount_msat = fst (snd popped);
            edge_endnode = snd (snd popped);
            st1 = st\<lparr> nodes_to_explore := snd (pq_get (nodes_to_explore st)) \<rparr>
        in if truthy nodeA \<and> Some edge_endnode = nodeA then Some (Inr st1)
           else if dist_to_edge_endnode \<noteq> distance_from_start st1 edge_endnode then
             get_distances_loop self nodeA is_source my_channels st1
           else
             (case explore_edges
                     (explore_edge self nodeA is_source my_channels amount_msat edge_endnode)
                     (get_channels_for_node (channel_db self) edge_endnode (Some my_channels))
                     st1 of
                Inl e \<Rightarrow> Some (Inl e)
              | Inr st2 \<Rightarrow> get_distances_loop self nodeA is_source my_channels st2))"

definition initial_state :: "bytes \<Rightarrow> int \<Rightarrow> search_state" where
  "initial_state nodeB invoice_amount_msat =
     \<lparr> distance_from_start = (\<lambda>_. Infinite)(nodeB := Finite 0),
       prev_node = Map.empty,
       nodes_to_explore = pq_put (Finite 0, invoice_amount_msat, nodeB) [] \<rparr>"

definition get_distances ::
  "LNPathFinder \<Rightarrow> bytes option \<Rightarrow> bytes \<Rightarrow> int \<Rightarrow> bool \<Rightarrow> LocalChannels \<Rightarrow>
   (error + (bytes \<rightharpoonup> bytes \<times> ShortChannelID)) option" where
  "get_distances self nodeA nodeB invoice_amount_msat is_source my_channels =
     map_option (map_sum id prev_node)
       (get_distances_loop self nodeA is_source my_channels
          (initial_state nodeB invoice_amount_msat))"

subsection \<open>Backtracking and route construction\<close>

text \<open>
  The \<^verbatim>\<open>while edge_startnode != nodeB\<close> loop of \<^verbatim>\<open>get_path\<close>; reading a missing key
  of \<^verbatim>\<open>prev_node\<close> raises \<^verbatim>\<open>KeyError\<close>, and the loop has no bound of its own.
\<close>

partial_function (option) get_path_loop ::
  "(bytes \<rightharpoonup> bytes \<times> ShortChannelID) \<Rightarrow> bytes \<Rightarrow> bytes \<Rightarrow> path \<Rightarrow> (error + path) option" where
  "get_path_loop prev nodeB edge_startnode p =
     (if edge_startnode \<noteq> nodeB then
        (case prev edge_startnode of
           None \<Rightarrow> Some (Inl (KeyError edge_startnode))
         | Some hop \<Rightarrow> get_path_loop prev nodeB (fst hop) (p @ [(fst hop, snd hop)]))
      else Some (Inr p))"

definition get_path ::
  "bytes \<Rightarrow> bytes \<Rightarrow> (bytes \<rightharpoonup> bytes \<times> ShortChannelID) \<Rightarrow> (error + path option) option" where
  "get_path nodeA nodeB prev =
     (if prev nodeA = None then Some (Inr None)
      else map_option (map_sum id Some) (get_path_loop prev nodeB nodeA []))"

definition find_path_for_payment ::
  "LNPathFinder \<Rightarrow> bytes \<Rightarrow> bytes \<Rightarrow> int \<Rightarrow> LocalChannels option \<Rightarrow>
   (error + path option) option" where
  "find_path_for_payment self nodeA nodeB invoice_amount_msat my_channels =
     (let my_channels' = (case my_channels of None \<Rightarrow> Map.empty | Some m \<Rightarrow> m)
      in case get_distances self (Some nodeA) nodeB invoice_amount_msat True my_channels' of
           None \<Rightarrow> None
         | Some (Inl e) \<Rightarrow> Some (Inl e)
         | Some (Inr prev) \<Rightarrow> get_path nodeA nodeB prev)"

text \<open>The \<^verbatim>\<open>for node_id, short_channel_id in path\<close> loop of \<^verbatim>\<open>create_route_from_path\<close>.\<close>

fun create_route_loop ::
  "LNPathFinder \<Rightarrow> LocalChannels option \<Rightarrow> path \<Rightarrow> bytes \<Rightarrow> LNPaymentRoute \<Rightarrow>
   error + LNPaymentRoute" where
  "create_route_loop self my_channels [] prev_node_id route = Inr route"
| "create_route_loop self my_channels ((nid, scid) # rest) prev_node_id route =
     (case get_policy_for_node (channel_db self) scid prev_node_id my_channels of
        None \<Rightarrow> Inl (NoChannelPolicy (normalize scid))
      | Some channel_policy \<Rightarrow>
          create_route_loop self my_channels rest nid
            (route @ [from_channel_policy channel_policy scid nid
                        (get_node_info_for_node_id (channel_db self) nid)]))"

definition create_route_from_path ::
  "LNPathFinder \<Rightarrow> path option \<Rightarrow> bytes \<Rightarrow> LocalChannels option \<Rightarrow> error + LNPaymentRoute" where
  "create_route_from_path self p from_node_id my_channels =
     (case p of
        None \<Rightarrow> Inl (Exception ''cannot create route from None path'')
      | Some hops \<Rightarrow> create_route_loop self my_channels hops from_node_id [])"

section \<open>Notions used in the statements\<close>

text \<open>
  The policy that hop \<open>i\<close> of a path needs: the one published for the hop's channel
  by the hop's start node, which is \<open>from_node_id\<close> for the first hop and the node
  reached by the previous hop otherwise.
\<close>

definition hop_policy ::
  "LNPathFinder \<Rightarrow> LocalChannels option \<Rightarrow> bytes \<Rightarrow> path \<Rightarrow> nat \<Rightarrow> Policy option" where
  "hop_policy self my_channels from_node_id p i =
     get_policy_for_node (channel_db self) (snd (p ! i)) ((from_node_id # map fst p) ! i) my_channels"

text \<open>
  The amount that has to enter a sequence of edges for \<open>amt\<close> to leave it, fees
  compounding from the last edge back to the first, and the per-edge sanity test taken
  at the amount each edge forwards.
\<close>

fun sender_amount :: "RouteEdge list \<Rightarrow> int \<Rightarrow> int" where
  "sender_amount [] amt = amt"
| "sender_amount (e # es) amt = sender_amount es amt + fee_for_edge e (sender_amount es amt)"

fun edges_sane :: "RouteEdge list \<Rightarrow> int \<Rightarrow> bool" where
  "edges_sane [] amt = True"
| "edges_sane (e # es) amt = (edges_sane es amt \<and> is_sane_to_use e (sender_amount es amt))"

text \<open>
  The accumulation as the specification words it: backward from the last-but-one edge
  to the first, the last edge left out.
\<close>

definition accumulate_except_last ::
  "LNPaymentRoute \<Rightarrow> int \<Rightarrow> int \<Rightarrow> (int \<times> int) option" where
  "accumulate_except_last route amt cltv = route_accumulate (rev (butlast route)) amt cltv"

text \<open>
  The cost the specification words for an edge leaving the caller's own node: the base
  cost plus the CLTV term, only the fee term dropped.
\<close>

definition claimed_own_edge_cost :: "Policy \<Rightarrow> int \<Rightarrow> cost" where
  "claimed_own_edge_cost channel_policy amount_msat =
     Finite (500 + real_of_int (int (Policy.cltv_expiry_delta channel_policy) * amount_msat * 15)
                     / 1000000000)"

text \<open>
  The local channels the search works with: \<^verbatim>\<open>find_path_for_payment\<close> replaces
  \<^verbatim>\<open>my_channels = None\<close> by the empty dictionary.
\<close>

definition local_view :: "LocalChannels option \<Rightarrow> LocalChannels" where
  "local_view my_channels = (case my_channels of None \<Rightarrow> Map.empty | Some m \<Rightarrow> m)"

text \<open>
  What \<^verbatim>\<open>get_path\<close> reads off a predecessor map: starting at \<open>u\<close>, each hop is the
  entry of the node reached so far, no node before the end is \<open>nodeB\<close>, and the walk
  ends at \<open>nodeB\<close>.
\<close>

fun backtrack ::
  "(bytes \<rightharpoonup> bytes \<times> ShortChannelID) \<Rightarrow> bytes \<Rightarrow> bytes \<Rightarrow> path \<Rightarrow> bool" where
  "backtrack prev nodeB u [] = (u = nodeB)"
| "backtrack prev nodeB u (h # hs) =
     (u \<noteq> nodeB \<and> prev u = Some h \<and> backtrack prev nodeB (fst h) hs)"

text \<open>
  The invariant of the predecessor map during the search: every entry uses a channel
  that is not blacklisted and whose policy in the direction scored is published.
\<close>

definition prev_ok :: "LNPathFinder \<Rightarrow> bool \<Rightarrow> LocalChannels \<Rightarrow> search_state \<Rightarrow> bool" where
  "prev_ok self is_source my_channels st =
     (\<forall>u v c. prev_node st u = Some (v, c) \<longrightarrow>
        c \<notin> blacklist self \<and>
        get_policy_for_node (channel_db self) c (if is_source then u else v) (Some my_channels)
          \<noteq> None)"

text \<open>
  The order on costs that \<open>cost_less\<close> induces, with the infinite value on top.
\<close>

instantiation cost :: linorder
begin

definition less_cost :: "cost \<Rightarrow> cost \<Rightarrow> bool" where
  "less_cost a b = cost_less a b"

definition less_eq_cost :: "cost \<Rightarrow> cost \<Rightarrow> bool" where
  "less_eq_cost a b = (\<not> cost_less b a)"

instance
proof
  fix x y z :: cost
  show "(x < y) = (x \<le> y \<and> \<not> y \<le> x)"
    by (cases x; cases y) (auto simp: less_cost_def less_eq_cost_def)
  show "x \<le> x"
    by (cases x) (auto simp: less_eq_cost_def)
  show "x \<le> y \<Longrightarrow> y \<le> z \<Longrightarrow> x \<le> z"
    by (cases x; cases y; cases z) (auto simp: less_eq_cost_def)
  show "x \<le> y \<Longrightarrow> y \<le> x \<Longrightarrow> x = y"
    by (cases x; cases y) (auto simp: less_eq_cost_def)
  show "x \<le> y \<or> y \<le> x"
    by (cases x; cases y) (auto simp: less_eq_cost_def)
qed

end


text \<open>
  Notions for the termination argument. A queue entry is live for its node when its key
  is the node's current distance (the loop discards the others); a node is settled when
  it has a finite distance and no live entry. The search invariant: queue entries are
  for nodes of the graph, have finite keys not below the distance of their node, each
  node has at most one live entry, and a settled node's distance is below every key in
  the queue. While the channels of a popped node \<open>v\<close> are explored, \<open>v\<close> is settled
  and no settled distance exceeds the distance of \<open>v\<close>.
\<close>

definition live :: "search_state \<Rightarrow> bytes \<Rightarrow> entry \<Rightarrow> bool" where
  "live st w e = (snd (snd e) = w \<and> fst e = distance_from_start st w)"





text \<open>
  The route edge that \<^verbatim>\<open>create_route_from_path\<close> builds for hop \<open>i\<close> when the policy of
  that hop resolves, and the first hop of a path whose policy does not resolve.
\<close>

definition hop_edge ::
  "LNPathFinder \<Rightarrow> LocalChannels option \<Rightarrow> bytes \<Rightarrow> path \<Rightarrow> nat \<Rightarrow> RouteEdge" where
  "hop_edge self my_channels from_node_id p i =
     from_channel_policy (the (hop_policy self my_channels from_node_id p i))
       (snd (p ! i)) (fst (p ! i))
       (get_node_info_for_node_id (channel_db self) (fst (p ! i)))"

definition first_unresolved ::
  "LNPathFinder \<Rightarrow> LocalChannels option \<Rightarrow> bytes \<Rightarrow> path \<Rightarrow> nat \<Rightarrow> bool" where
  "first_unresolved self my_channels from_node_id p i =
     (i < length p \<and> hop_policy self my_channels from_node_id p i = None
      \<and> (\<forall>j<i. hop_policy self my_channels from_node_id p j \<noteq> None))"

text \<open>
  A \<^verbatim>\<open>my_channels\<close> argument resolves like another one when the channel database
  finds a policy with it wherever it finds one with the other.
\<close>

definition resolves_like ::
  "LNPathFinder \<Rightarrow> LocalChannels option \<Rightarrow> LocalChannels option \<Rightarrow> bool" where
  "resolves_like self my_channels' my_channels =
     (\<forall>c n. get_policy_for_node (channel_db self) c n my_channels \<noteq> None
            \<longrightarrow> get_policy_for_node (channel_db self) c n my_channels' \<noteq> None)"

text \<open>
  One pass of the main loop of \<^verbatim>\<open>get_distances\<close> with the way it ends made explicit:
  the \<^verbatim>\<open>while\<close> test fails (queue empty), the \<^verbatim>\<open>break\<close> is taken (source popped),
  the body raises, or the loop goes on with a new state. \<open>iterations n\<close> is the state
  after \<open>n\<close> passes that all go on. \<open>get_distances_loop_step\<close> below shows that
  \<open>get_distances_loop\<close> is the iteration of this step.
\<close>

datatype step =
    Exit_queue_empty
  | Exit_source_popped search_state
  | Raise error
  | Continue search_state





section \<open>A concrete graph\<close>

text \<open>
  The three-node graph of the spec's second scenario: nodes A, B, D; channel 1 between
  A and B with zero-fee policies; channel 2 between B and D, where B's outgoing policy
  has base 1000, 100 ppm and CLTV delta 40. What the scenario leaves open is fixed as in
  its first scenario: capacity 1 BTC, CLTV delta 40, no HTLC bounds.
\<close>

definition node_A :: bytes where "node_A = [65]"

definition node_B :: bytes where "node_B = [66]"

definition node_D :: bytes where "node_D = [68]"

definition zero_fee_policy :: Policy where
  "zero_fee_policy =
     \<lparr> Policy.fee_base_msat = 0, Policy.fee_proportional_millionths = 0,
       Policy.cltv_expiry_delta = 40, htlc_minimum_msat = 0, htlc_maximum_msat = None,
       disabled = False \<rparr>"

definition policy_B_C2 :: Policy where
  "policy_B_C2 =
     \<lparr> Policy.fee_base_msat = 1000, Policy.fee_proportional_millionths = 100,
       Policy.cltv_expiry_delta = 40, htlc_minimum_msat = 0, htlc_maximum_msat = None,
       disabled = False \<rparr>"

definition graph3 :: ChannelDB where
  "graph3 = \<lparr>
     get_channels_for_node = (\<lambda>n mc.
        if n = node_A then [1] else if n = node_B then [1, 2]
        else if n = node_D then [2] else []),
     get_channel_info = (\<lambda>c mc.
        if c = 1 then Some \<lparr> node1_id = node_A, node2_id = node_B, capacity_sat = Some 100000000 \<rparr>
        else if c = 2 then Some \<lparr> node1_id = node_B, node2_id = node_D, capacity_sat = Some 100000000 \<rparr>
        else None),
     get_policy_for_node = (\<lambda>c n mc.
        if c = 1 \<and> (n = node_A \<or> n = node_B) then Some zero_fee_policy
        else if c = 2 \<and> n = node_B then Some policy_B_C2
        else if c = 2 \<and> n = node_D then Some zero_fee_policy
        else None),
     get_node_info_for_node_id = (\<lambda>n. None) \<rparr>"

definition finder3 :: LNPathFinder where
  "finder3 = \<lparr> channel_db = graph3, blacklist = {} \<rparr>"

text \<open>The route along channels 1 and 2 from A to D.\<close>

definition route3 :: LNPaymentRoute where
  "route3 = [from_channel_policy zero_fee_policy 1 node_B None,
             from_channel_policy policy_B_C2 2 node_D None]"

section \<open>Local channels\<close>

text \<open>
  A channel that is always usable, and two local-channel dictionaries. In \<open>private_graph\<close>
  channel 1 between A and B is a channel of the caller that was never announced: the
  database knows it, and the policies on it, only through a \<^verbatim>\<open>my_channels\<close> argument that
  holds it. \<open>foreign_channels\<close> holds channel 2, which joins B and D and so does not touch
  the source A.
\<close>

definition open_channel :: Channel where
  "open_channel = \<lparr> can_pay = (\<lambda>amount_msat check_frozen. True),
                     can_receive = (\<lambda>amount_msat check_frozen. True) \<rparr>"

definition own_channels :: LocalChannels where
  "own_channels = Map.empty(1 \<mapsto> open_channel)"

definition knows_channel_1 :: "LocalChannels option \<Rightarrow> bool" where
  "knows_channel_1 mc = (case mc of None \<Rightarrow> False | Some m \<Rightarrow> m 1 \<noteq> None)"

definition private_graph :: ChannelDB where
  "private_graph = \<lparr>
     get_channels_for_node = (\<lambda>n mc.
        if n = node_A then [1] else if n = node_B then [1, 2]
        else if n = node_D then [2] else []),
     get_channel_info = (\<lambda>c mc.
        if c = 1 \<and> knows_channel_1 mc
        then Some \<lparr> node1_id = node_A, node2_id = node_B, capacity_sat = Some 100000000 \<rparr>
        else if c = 2
        then Some \<lparr> node1_id = node_B, node2_id = node_D, capacity_sat = Some 100000000 \<rparr>
        else None),
     get_policy_for_node = (\<lambda>c n mc.
        if c = 1 \<and> (n = node_A \<or> n = node_B) \<and> knows_channel_1 mc then Some zero_fee_policy
        else if c = 2 \<and> n = node_B then Some policy_B_C2
        else if c = 2 \<and> n = node_D then Some zero_fee_policy
        else None),
     get_node_info_for_node_id = (\<lambda>n. None) \<rparr>"

definition private_finder :: LNPathFinder where
  "private_finder = \<lparr> channel_db = private_graph, blacklist = {} \<rparr>"




section \<open>Two disjoint two-hop paths\<close>

text \<open>
  Nodes A, B, X, D; channels 1 (A, B), 2 (B, D), 3 (A, X), 4 (X, D). All policies are
  zero-fee except the one of X on channel 4, so the path over B is the cheaper one.
\<close>

definition node_X :: bytes where "node_X = [88]"

definition diamond_graph :: ChannelDB where
  "diamond_graph = \<lparr>
     get_channels_for_node = (\<lambda>n mc.
        if n = node_A then [1, 3] else if n = node_B then [1, 2]
        else if n = node_X then [3, 4] else if n = node_D then [2, 4] else []),
     get_channel_info = (\<lambda>c mc.
        if c = 1 then Some \<lparr> node1_id = node_A, node2_id = node_B, capacity_sat = None \<rparr>
        else if c = 2 then Some \<lparr> node1_id = node_B, node2_id = node_D, capacity_sat = None \<rparr>
        else if c = 3 then Some \<lparr> node1_id = node_A, node2_id = node_X, capacity_sat = None \<rparr>
        else if c = 4 then Some \<lparr> node1_id = node_D, node2_id = node_X, capacity_sat = None \<rparr>
        else None),
     get_policy_for_node = (\<lambda>c n mc.
        if c = 4 \<and> n = node_X then Some policy_B_C2
        else if (c = 1 \<and> (n = node_A \<or> n = node_B)) \<or> (c = 2 \<and> (n = node_B \<or> n = node_D))
              \<or> (c = 3 \<and> (n = node_A \<or> n = node_X)) \<or> (c = 4 \<and> n = node_D)
        then Some zero_fee_policy
        else None),
     get_node_info_for_node_id = (\<lambda>n. None) \<rparr>"

definition diamond_finder :: LNPathFinder where
  "diamond_finder = \<lparr> channel_db = diamond_graph, blacklist = {} \<rparr>"

section \<open>A chain of 22 nodes\<close>

text \<open>
  Nodes 0 to 21 in a line; channel \<open>k\<close> joins node \<open>k\<close> and node \<open>k + 1\<close> and
  carries the zero-fee policy in both directions.
\<close>

definition chain_node :: "nat \<Rightarrow> bytes" where
  "chain_node k = [of_nat k]"

definition chain_graph :: ChannelDB where
  "chain_graph = \<lparr>
     get_channels_for_node = (\<lambda>n mc.
        case n of
          [b] \<Rightarrow> (if unat b = 0 then [0]
                  else if unat b < 21 then [of_nat (unat b - 1), of_nat (unat b)]
                  else if unat b = 21 then [20] else [])
        | _ \<Rightarrow> []),
     get_channel_info = (\<lambda>c mc.
        if unat c < 21
        then Some \<lparr> node1_id = chain_node (unat c), node2_id = chain_node (unat c + 1),
                    capacity_sat = None \<rparr>
        else None),
     get_policy_for_node = (\<lambda>c n mc.
        if unat c < 21 \<and> (n = chain_node (unat c) \<or> n = chain_node (unat c + 1))
        then Some zero_fee_policy else None),
     get_node_info_for_node_id = (\<lambda>n. None) \<rparr>"

definition chain_finder :: LNPathFinder where
  "chain_finder = \<lparr> channel_db = chain_graph, blacklist = {} \<rparr>"

definition chain_path :: path where
  "chain_path = map (\<lambda>k. (chain_node (Suc k), of_nat k)) [0..<21]"

section \<open>Evaluation\<close>

lemmas search_simps =
  find_path_for_payment_def get_distances_def initial_state_def get_distances_loop.simps
  pq_get_def pq_put_def truthy_def explore_edge_def relax_edge_def edge_cost_def
  is_disabled_def from_channel_policy_def normalize_def is_sane_to_use_def is_fee_sane_def
  fee_for_edge_def fee_for_edge_msat_def get_path_def get_path_loop.simps Let_def

lemmas chain_simps = chain_finder_def chain_graph_def chain_node_def zero_fee_policy_def

lemmas diamond_simps = diamond_finder_def diamond_graph_def node_X_def add_to_blacklist_def

lemmas private_simps =
  private_finder_def private_graph_def knows_channel_1_def own_channels_def open_channel_def
  node_A_def node_B_def node_D_def zero_fee_policy_def policy_B_C2_def


lemmas graph3_simps =
  finder3_def graph3_def node_A_def node_B_def node_D_def zero_fee_policy_def policy_B_C2_def

section \<open>Fees, costs and the scenarios\<close>

text \<open>
  Claim C1, at a failing input. On the chain of 22 nodes the search from node 0 to
  node 21 returns the path through all 21 channels: \<^verbatim>\<open>get_path\<close> backtracks without
  any bound, although its own comment says that paths cannot be longer than 20 edges,
  and \<^verbatim>\<open>is_route_sane_to_use\<close> refuses the route built from it.
\<close>

theorem chain_path_exceeds_max_edges:
  "find_path_for_payment chain_finder (chain_node 0) (chain_node 21) 1000 None
     = Some (Inr (Some chain_path))
   \<and> int (length chain_path) = 21
   \<and> int (length chain_path) > NUM_MAX_EDGES_IN_PAYMENT_PATH"
  by (simp add: chain_simps search_simps chain_path_def upt_conv_Cons
        NUM_MAX_EDGES_IN_PAYMENT_PATH_def NUM_MAX_HOPS_IN_PAYMENT_PATH_def)

lemma route_accumulate_snoc:
  "route_accumulate (xs @ [e]) amt cltv =
     (case route_accumulate xs amt cltv of
        None \<Rightarrow> None
      | Some (a, c) \<Rightarrow> if \<not> is_sane_to_use e a then None
                       else Some (a + fee_for_edge e a, c + cltv_expiry_delta e))"
  by (induction xs arbitrary: amt cltv) auto

lemma route_accumulate_rev:
  "route_accumulate (rev es) amt cltv =
     (if edges_sane es amt
      then Some (sender_amount es amt, cltv + sum_list (map cltv_expiry_delta es))
      else None)"
  by (induction es) (auto simp: route_accumulate_snoc)

text \<open>
  Claim C2 as stated fails. On the route from A over B to D the loop of
  \<^verbatim>\<open>is_route_sane_to_use\<close> adds the fee of the last edge (1100 msat, charged by B) and
  leaves out the first edge; leaving out the last edge instead would add nothing.
\<close>

theorem accumulate_except_last_counterexample:
  "route_accumulate (rev (drop 1 route3)) 1000000 0 = Some (1001100, 40)
   \<and> accumulate_except_last route3 1000000 0 = Some (1000000, 40)"
  by (simp add: route3_def accumulate_except_last_def graph3_simps search_simps)

text \<open>
  Claim C2, amended. The loop runs over \<^verbatim>\<open>reversed(route[1:])\<close>: every edge except
  the first adds its fee (taken at the amount accumulated so far) and its CLTV delta,
  the last edge included; the first edge adds nothing and is not tested. Hence the
  verdict of \<^verbatim>\<open>is_route_sane_to_use\<close> depends on the first edge only through the length.
\<close>

theorem is_route_sane_to_use_skips_first_edge:
  "route_accumulate (rev (drop 1 (first # rest))) invoice_amount_msat min_final_cltv_expiry =
     (if edges_sane rest invoice_amount_msat
      then Some (sender_amount rest invoice_amount_msat,
                 min_final_cltv_expiry + sum_list (map cltv_expiry_delta rest))
      else None)
   \<and> is_route_sane_to_use (first # rest) invoice_amount_msat min_final_cltv_expiry =
     (int (length (first # rest)) \<le> NUM_MAX_EDGES_IN_PAYMENT_PATH
      \<and> edges_sane rest invoice_amount_msat
      \<and> min_final_cltv_expiry + sum_list (map cltv_expiry_delta rest)
           \<le> NBLOCK_CLTV_EXPIRY_TOO_FAR_INTO_FUTURE
      \<and> is_fee_sane (sender_amount rest invoice_amount_msat - invoice_amount_msat)
           invoice_amount_msat)"
  by (auto simp: is_route_sane_to_use_def route_accumulate_rev)

theorem is_route_sane_to_use_skips_first_edge_witness:
  "route_accumulate (rev (drop 1 route3)) 1000000 147 = Some (1001100, 187)
   \<and> is_route_sane_to_use route3 1000000 147"
  using is_route_sane_to_use_skips_first_edge
          [of "from_channel_policy zero_fee_policy 1 node_B None"
              "[from_channel_policy policy_B_C2 2 node_D None]" 1000000 147]
  by (simp add: route3_def graph3_simps search_simps
        NUM_MAX_EDGES_IN_PAYMENT_PATH_def NUM_MAX_HOPS_IN_PAYMENT_PATH_def
        NBLOCK_CLTV_EXPIRY_TOO_FAR_INTO_FUTURE_def)

text \<open>
  Claim C3 as stated fails. The edge from B to D over channel 2 is admissible at
  1000000 msat and has CLTV delta 40; with \<^verbatim>\<open>ignore_costs\<close> set its cost is 500, not
  500 plus the CLTV term 0.6.
\<close>

theorem edge_cost_own_node_counterexample:
  "fst (edge_cost finder3 2 node_B node_D 1000000 False False None) \<noteq> Infinite
   \<and> edge_cost finder3 2 node_B node_D 1000000 True False None = (Finite 500, 0)
   \<and> get_policy_for_node (channel_db finder3) 2 node_B None = Some policy_B_C2
   \<and> claimed_own_edge_cost policy_B_C2 1000000 = Finite (5006 / 10)
   \<and> fst (edge_cost finder3 2 node_B node_D 1000000 True False None)
       \<noteq> claimed_own_edge_cost policy_B_C2 1000000"
  by (simp add: graph3_simps search_simps claimed_own_edge_cost_def)

text \<open>
  Claim C3, amended. For every admissible edge (one whose cost without
  \<^verbatim>\<open>ignore_costs\<close> is finite), \<^verbatim>\<open>_edge_cost\<close> with \<^verbatim>\<open>ignore_costs\<close> set returns the
  cost 500 and the fee 0: the fee term and the CLTV term are both dropped.
\<close>

theorem edge_cost_ignore_costs:
  "fst (edge_cost self scid start_node end_node amt False is_mine my_channels) \<noteq> Infinite
   \<Longrightarrow> edge_cost self scid start_node end_node amt True is_mine my_channels = (Finite 500, 0)"
  by (auto simp: edge_cost_def Let_def split: option.splits if_splits)

theorem edge_cost_ignore_costs_witness:
  "fst (edge_cost finder3 2 node_B node_D 1000000 False False None) \<noteq> Infinite
   \<and> edge_cost finder3 2 node_B node_D 1000000 True False None = (Finite 500, 0)"
proof -
  have h: "fst (edge_cost finder3 2 node_B node_D 1000000 False False None) \<noteq> Infinite"
    by (simp add: graph3_simps search_simps)
  from h edge_cost_ignore_costs[OF h] show ?thesis by simp
qed

text \<open>
  Claim C4. On the three-node graph the search from A to D for 1000000 msat returns
  the path over B through channels 1 and 2; the route built from it is \<open>route3\<close>, and
  the amount accumulated over that route is 1001100 msat, a total fee of 1100 msat.
\<close>

theorem three_node_scenario:
  "find_path_for_payment finder3 node_A node_D 1000000 None
     = Some (Inr (Some [(node_B, 1), (node_D, 2)]))
   \<and> create_route_from_path finder3 (Some [(node_B, 1), (node_D, 2)]) node_A None = Inr route3
   \<and> route_accumulate (rev (drop 1 route3)) 1000000 min_final_cltv_expiry
     = Some (1001100, min_final_cltv_expiry + 40)
   \<and> 1001100 - 1000000 = (1100 :: int)"
  by (simp add: graph3_simps search_simps route3_def create_route_from_path_def)

section \<open>Route construction\<close>

lemma ex_less_Cons:
  "(\<exists>i<length (x # xs). P i) \<longleftrightarrow> (P 0 \<or> (\<exists>i<length xs. P (Suc i)))"
proof
  assume "\<exists>i<length (x # xs). P i"
  then obtain i where i: "i < length (x # xs)" "P i" by blast
  show "P 0 \<or> (\<exists>i<length xs. P (Suc i))"
  proof (cases i)
    case 0
    with i show ?thesis by simp
  next
    case (Suc j)
    with i show ?thesis by auto
  qed
next
  assume "P 0 \<or> (\<exists>i<length xs. P (Suc i))"
  then show "\<exists>i<length (x # xs). P i" by auto
qed

lemma create_route_loop_cases:
  "(\<exists>r. create_route_loop self mc p prev route = Inr r) \<or>
   (\<exists>scid. create_route_loop self mc p prev route = Inl (NoChannelPolicy scid))"
  by (induction self mc p prev route rule: create_route_loop.induct) (auto split: option.splits)

lemma create_route_loop_raises_iff:
  "(\<exists>scid. create_route_loop self mc p prev route = Inl (NoChannelPolicy scid)) \<longleftrightarrow>
   (\<exists>i<length p. hop_policy self mc prev p i = None)"
proof (induction p arbitrary: prev route)
  case Nil
  show ?case by simp
next
  case (Cons h rest)
  obtain nid scid where h: "h = (nid, scid)" by (cases h)
  show ?case
  proof (cases "get_policy_for_node (channel_db self) scid prev mc")
    case None
    then have "hop_policy self mc prev (h # rest) 0 = None"
      by (simp add: hop_policy_def h)
    then have "\<exists>i<length (h # rest). hop_policy self mc prev (h # rest) i = None"
      by (intro exI[of _ 0]) simp
    moreover have "\<exists>s. create_route_loop self mc (h # rest) prev route = Inl (NoChannelPolicy s)"
      using None by (simp add: h)
    ultimately show ?thesis by blast
  next
    case (Some pol)
    have step: "create_route_loop self mc (h # rest) prev route =
          create_route_loop self mc rest nid
            (route @ [from_channel_policy pol scid nid
                        (get_node_info_for_node_id (channel_db self) nid)])"
      using Some by (simp add: h)
    have shift: "\<And>i. hop_policy self mc prev (h # rest) (Suc i) = hop_policy self mc nid rest i"
      by (simp add: hop_policy_def h)
    have zero: "hop_policy self mc prev (h # rest) 0 \<noteq> None"
      using Some by (simp add: hop_policy_def h)
    show ?thesis
      unfolding step ex_less_Cons Cons.IH shift using zero by auto
  qed
qed

lemma hop_policy_Suc:
  "hop_policy self mc prev ((nid, scid) # rest) (Suc i) = hop_policy self mc nid rest i"
  by (simp add: hop_policy_def)

lemma hop_policy_0:
  "hop_policy self mc prev ((nid, scid) # rest) 0 = get_policy_for_node (channel_db self) scid prev mc"
  by (simp add: hop_policy_def)

lemma hop_edge_Suc:
  "hop_edge self mc prev ((nid, scid) # rest) (Suc i) = hop_edge self mc nid rest i"
  by (simp add: hop_edge_def hop_policy_Suc)

lemma create_route_loop_resolved:
  "(\<forall>i<length p. hop_policy self mc prev p i \<noteq> None)
   \<Longrightarrow> create_route_loop self mc p prev route
       = Inr (route @ map (hop_edge self mc prev p) [0..<length p])"
proof (induction p arbitrary: prev route)
  case Nil
  show ?case by simp
next
  case (Cons h rest)
  obtain nid scid where h: "h = (nid, scid)" by (cases h)
  from Cons.prems have "hop_policy self mc prev (h # rest) 0 \<noteq> None" by blast
  then obtain pol where pol: "get_policy_for_node (channel_db self) scid prev mc = Some pol"
    by (auto simp: h hop_policy_0)
  have rest: "\<forall>i<length rest. hop_policy self mc nid rest i \<noteq> None"
  proof (intro allI impI)
    fix i assume "i < length rest"
    then have "Suc i < length (h # rest)" by simp
    with Cons.prems have "hop_policy self mc prev (h # rest) (Suc i) \<noteq> None" by blast
    then show "hop_policy self mc nid rest i \<noteq> None" by (simp add: h hop_policy_Suc)
  qed
  have e0: "hop_edge self mc prev (h # rest) 0
            = from_channel_policy pol scid nid (get_node_info_for_node_id (channel_db self) nid)"
    by (simp add: hop_edge_def h hop_policy_0 pol)
  have shift: "map (hop_edge self mc prev (h # rest)) [0..<length (h # rest)]
        = hop_edge self mc prev (h # rest) 0 # map (hop_edge self mc nid rest) [0..<length rest]"
    by (simp add: map_upt_Suc h hop_edge_Suc del: upt_Suc)
  have "create_route_loop self mc (h # rest) prev route
        = create_route_loop self mc rest nid
            (route @ [from_channel_policy pol scid nid
                        (get_node_info_for_node_id (channel_db self) nid)])"
    by (simp add: h pol)
  also have "\<dots> = Inr ((route @ [from_channel_policy pol scid nid
                        (get_node_info_for_node_id (channel_db self) nid)])
                      @ map (hop_edge self mc nid rest) [0..<length rest])"
    by (rule Cons.IH[OF rest])
  finally show ?case by (simp only: shift e0 append_assoc append_Cons append_Nil)
qed

lemma create_route_loop_first_unresolved:
  "first_unresolved self mc prev p i
   \<Longrightarrow> create_route_loop self mc p prev route = Inl (NoChannelPolicy (snd (p ! i)))"
proof (induction p arbitrary: prev route i)
  case Nil
  then show ?case by (simp add: first_unresolved_def)
next
  case (Cons h rest)
  obtain nid scid where h: "h = (nid, scid)" by (cases h)
  show ?case
  proof (cases i)
    case 0
    with Cons.prems have "get_policy_for_node (channel_db self) scid prev mc = None"
      by (simp add: first_unresolved_def h hop_policy_0)
    with 0 show ?thesis by (simp add: h normalize_def)
  next
    case (Suc k)
    from Cons.prems Suc have "hop_policy self mc prev (h # rest) 0 \<noteq> None"
      by (auto simp: first_unresolved_def)
    then obtain pol where pol: "get_policy_for_node (channel_db self) scid prev mc = Some pol"
      by (auto simp: h hop_policy_0)
    have "first_unresolved self mc nid rest k"
      unfolding first_unresolved_def
    proof (intro conjI allI impI)
      from Cons.prems Suc show "k < length rest" by (simp add: first_unresolved_def)
      from Cons.prems Suc show "hop_policy self mc nid rest k = None"
        by (simp add: first_unresolved_def h hop_policy_Suc)
    next
      fix j assume "j < k"
      then have "Suc j < i" using Suc by simp
      with Cons.prems have "hop_policy self mc prev (h # rest) (Suc j) \<noteq> None"
        by (auto simp: first_unresolved_def)
      then show "hop_policy self mc nid rest j \<noteq> None" by (simp add: h hop_policy_Suc)
    qed
    from Cons.IH[OF this] Suc pol show ?thesis by (simp add: h)
  qed
qed

lemma first_unresolved_exists:
  assumes "\<exists>i<length p. hop_policy self mc prev p i = None"
  shows "\<exists>i. first_unresolved self mc prev p i"
proof -
  let ?P = "\<lambda>i. i < length p \<and> hop_policy self mc prev p i = None"
  from assms have ex: "\<exists>i. ?P i" by blast
  then have least: "?P (LEAST i. ?P i)" by (rule LeastI_ex)
  have "\<forall>j<(LEAST i. ?P i). hop_policy self mc prev p j \<noteq> None"
  proof (intro allI impI)
    fix j assume j: "j < (LEAST i. ?P i)"
    then have "\<not> ?P j" by (rule not_less_Least)
    moreover from j least have "j < length p" by simp
    ultimately show "hop_policy self mc prev p j \<noteq> None" by simp
  qed
  with least show ?thesis unfolding first_unresolved_def by blast
qed

lemma first_unresolved_unique:
  "first_unresolved self mc prev p i \<Longrightarrow> first_unresolved self mc prev p j \<Longrightarrow> i = j"
  unfolding first_unresolved_def by (meson linorder_neqE_nat)

text \<open>
  Claim C8. Applied to a path that is not \<^verbatim>\<open>None\<close>, \<^verbatim>\<open>create_route_from_path\<close>
  raises \<^verbatim>\<open>NoChannelPolicy(scid)\<close> exactly when some hop of the path has no policy
  published by the hop's start node (the previous node on the path, \<^verbatim>\<open>from_node_id\<close>
  for the first hop), and \<open>scid\<close> is then the short channel id of the first such hop; it
  raises nothing else; and when the policy of every hop resolves it returns the route
  whose \<open>i\<close>-th edge is built from the policy of hop \<open>i\<close>, its channel, its node and
  that node's info.
\<close>

theorem create_route_from_path_raises_iff:
  "(\<forall>scid. create_route_from_path self (Some p) from_node_id my_channels
              = Inl (NoChannelPolicy scid)
            \<longleftrightarrow> (\<exists>i. first_unresolved self my_channels from_node_id p i \<and> scid = snd (p ! i)))
   \<and> ((\<exists>e. create_route_from_path self (Some p) from_node_id my_channels = Inl e)
        \<longleftrightarrow> (\<exists>i<length p. hop_policy self my_channels from_node_id p i = None))
   \<and> ((\<forall>i<length p. hop_policy self my_channels from_node_id p i \<noteq> None)
        \<longrightarrow> create_route_from_path self (Some p) from_node_id my_channels
            = Inr (map (hop_edge self my_channels from_node_id p) [0..<length p]))"
proof -
  let ?res = "create_route_from_path self (Some p) from_node_id my_channels"
  have res: "?res = create_route_loop self my_channels p from_node_id []"
    by (simp add: create_route_from_path_def)
  have ok: "?res = Inr (map (hop_edge self my_channels from_node_id p) [0..<length p])"
    if "\<forall>i<length p. hop_policy self my_channels from_node_id p i \<noteq> None"
    using create_route_loop_resolved[OF that, of "[]"] by (simp add: res)
  have fail: "?res = Inl (NoChannelPolicy (snd (p ! i)))"
    if "first_unresolved self my_channels from_node_id p i" for i
    using create_route_loop_first_unresolved[OF that] by (simp add: res)
  have unresolved: "\<exists>i. first_unresolved self my_channels from_node_id p i"
    if "?res = Inl e" for e
  proof -
    have "\<exists>i<length p. hop_policy self my_channels from_node_id p i = None"
    proof (rule ccontr)
      assume "\<not> (\<exists>i<length p. hop_policy self my_channels from_node_id p i = None)"
      then have "\<forall>i<length p. hop_policy self my_channels from_node_id p i \<noteq> None"
        by simp
      from ok[OF this] that show False by simp
    qed
    then show ?thesis by (rule first_unresolved_exists)
  qed
  have a: "?res = Inl (NoChannelPolicy scid)
            \<longleftrightarrow> (\<exists>i. first_unresolved self my_channels from_node_id p i \<and> scid = snd (p ! i))"
    for scid
  proof
    assume r: "?res = Inl (NoChannelPolicy scid)"
    from unresolved[OF r] obtain i where i: "first_unresolved self my_channels from_node_id p i"
      by blast
    from fail[OF i] r have "scid = snd (p ! i)" by simp
    with i show "\<exists>i. first_unresolved self my_channels from_node_id p i \<and> scid = snd (p ! i)"
      by blast
  next
    assume "\<exists>i. first_unresolved self my_channels from_node_id p i \<and> scid = snd (p ! i)"
    then show "?res = Inl (NoChannelPolicy scid)" using fail by blast
  qed
  have b: "(\<exists>e. ?res = Inl e)
        \<longleftrightarrow> (\<exists>i<length p. hop_policy self my_channels from_node_id p i = None)"
  proof
    assume "\<exists>e. ?res = Inl e"
    then obtain e where "?res = Inl e" by blast
    from unresolved[OF this] show "\<exists>i<length p. hop_policy self my_channels from_node_id p i = None"
      unfolding first_unresolved_def by blast
  next
    assume "\<exists>i<length p. hop_policy self my_channels from_node_id p i = None"
    then obtain i where "first_unresolved self my_channels from_node_id p i"
      using first_unresolved_exists by blast
    from fail[OF this] show "\<exists>e. ?res = Inl e" by blast
  qed
  from a b ok show ?thesis by blast
qed

text \<open>
  On the three-node graph: channel 7 does not exist, so the path through it raises
  \<^verbatim>\<open>NoChannelPolicy(7)\<close> at its second hop; the path through channels 1 and 2 gives
  \<open>route3\<close>.
\<close>

theorem create_route_from_path_raises_iff_witness:
  "first_unresolved finder3 None node_A [(node_B, 1), (node_D, 7)] 1
   \<and> create_route_from_path finder3 (Some [(node_B, 1), (node_D, 7)]) node_A None
       = Inl (NoChannelPolicy 7)
   \<and> hop_policy finder3 None node_A [(node_B, 1), (node_D, 2)] 0 \<noteq> None
   \<and> hop_policy finder3 None node_A [(node_B, 1), (node_D, 2)] 1 \<noteq> None
   \<and> length [(node_B, 1 :: ShortChannelID), (node_D, 2)] = 2
   \<and> create_route_from_path finder3 (Some [(node_B, 1), (node_D, 2)]) node_A None = Inr route3"
proof -
  let ?bad = "[(node_B, 1 :: ShortChannelID), (node_D, 7)]"
  let ?good = "[(node_B, 1 :: ShortChannelID), (node_D, 2)]"
  have u: "first_unresolved finder3 None node_A ?bad 1"
    by (simp add: first_unresolved_def hop_policy_def graph3_simps)
  then have "\<exists>i. first_unresolved finder3 None node_A ?bad i \<and> (7 :: ShortChannelID) = snd (?bad ! i)"
    by (intro exI[of _ 1]) simp
  then have r: "create_route_from_path finder3 (Some ?bad) node_A None = Inl (NoChannelPolicy 7)"
    using create_route_from_path_raises_iff[of finder3 ?bad node_A None] by blast
  have g0: "hop_policy finder3 None node_A ?good 0 \<noteq> None"
    by (simp add: hop_policy_def graph3_simps)
  have g1: "hop_policy finder3 None node_A ?good 1 \<noteq> None"
    by (simp add: hop_policy_def graph3_simps)
  have l: "length ?good = 2" by simp
  from g0 g1 have g: "\<forall>i<length ?good. hop_policy finder3 None node_A ?good i \<noteq> None"
    by (simp add: less_Suc_eq all_conj_distrib)
  then have "create_route_from_path finder3 (Some ?good) node_A None
             = Inr (map (hop_edge finder3 None node_A ?good) [0..<length ?good])"
    using create_route_from_path_raises_iff[of finder3 ?good node_A None] by blast
  also have "map (hop_edge finder3 None node_A ?good) [0..<length ?good] = route3"
    by (simp add: hop_edge_def hop_policy_def route3_def graph3_simps upt_conv_Cons)
  finally have s: "create_route_from_path finder3 (Some ?good) node_A None = Inr route3" .
  from u r g0 g1 l s show ?thesis by blast
qed

text \<open>
  Claim C10. Called with \<^verbatim>\<open>path = None\<close>, \<^verbatim>\<open>create_route_from_path\<close> raises the plain
  \<^verbatim>\<open>Exception('cannot create route from None path')\<close>, whatever the start node and the
  local channels: not \<^verbatim>\<open>NoChannelPolicy\<close>, and no value is returned.
\<close>

theorem create_route_from_None_path:
  "create_route_from_path self None from_node_id my_channels =
     Inl (Exception ''cannot create route from None path'')"
  by (simp add: create_route_from_path_def)

section \<open>The predecessor map\<close>

lemma cost_less_Infinite [simp]: "cost_less Infinite d = False"
  by simp

lemma cost_add_Infinite [simp]: "cost_add d Infinite = Infinite"
  by (cases d) simp_all

lemma edge_cost_finite_policy:
  "fst (edge_cost self scid start_node end_node amt ic im mc) \<noteq> Infinite
   \<Longrightarrow> get_policy_for_node (channel_db self) scid start_node mc \<noteq> None"
  by (auto simp: edge_cost_def split: option.splits)

lemma relax_edge_prev:
  assumes "prev_node (relax_edge self nodeA is_source mc a n c s im st) u = Some (v, c')"
  shows "prev_node st u = Some (v, c') \<or>
         (u = s \<and> v = n \<and> c' = c \<and>
          get_policy_for_node (channel_db self) c (if is_source then s else n) (Some mc) \<noteq> None)"
proof -
  let ?ec = "edge_cost self c (if is_source then s else n) (if is_source then n else s) a
               (if truthy nodeA then Some s = nodeA else False) im (Some mc)"
  show ?thesis
  proof (cases "fst ?ec")
    case Infinite
    then have "relax_edge self nodeA is_source mc a n c s im st = st"
      by (simp add: relax_edge_def Let_def split_beta)
    with assms show ?thesis by simp
  next
    case (Finite q)
    then have "get_policy_for_node (channel_db self) c (if is_source then s else n) (Some mc) \<noteq> None"
      using edge_cost_finite_policy[of self c "if is_source then s else n" _ a _ im "Some mc"]
      by (metis cost.distinct(1))
    with assms show ?thesis
      by (auto simp: relax_edge_def Let_def split_beta split: if_splits)
  qed
qed

lemma explore_edge_cases:
  assumes "explore_edge self nodeA is_source mc a n c st = Inr st'"
  shows "st' = st \<or>
         (c \<notin> blacklist self \<and> (\<exists>s im. st' = relax_edge self nodeA is_source mc a n c s im st))"
  using assms
  by (auto simp: explore_edge_def Let_def split: if_splits option.splits)

lemma explore_edge_prev_ok:
  assumes "prev_ok self is_source mc st"
    and "explore_edge self nodeA is_source mc a n c st = Inr st'"
  shows "prev_ok self is_source mc st'"
proof -
  from explore_edge_cases[OF assms(2)]
  show ?thesis
  proof
    assume "st' = st"
    with assms(1) show ?thesis by simp
  next
    assume "c \<notin> blacklist self \<and> (\<exists>s im. st' = relax_edge self nodeA is_source mc a n c s im st)"
    then obtain s im where nb: "c \<notin> blacklist self"
      and st': "st' = relax_edge self nodeA is_source mc a n c s im st" by blast
    show ?thesis
      unfolding prev_ok_def
    proof (intro allI impI)
      fix u v c'
      assume "prev_node st' u = Some (v, c')"
      from relax_edge_prev[OF this[unfolded st']]
      show "c' \<notin> blacklist self \<and>
            get_policy_for_node (channel_db self) c' (if is_source then u else v) (Some mc) \<noteq> None"
        using assms(1) nb unfolding prev_ok_def by auto
    qed
  qed
qed

lemma explore_edges_invariant:
  assumes "\<And>c s s'. I s \<Longrightarrow> body c s = Inr s' \<Longrightarrow> I s'"
    and "I st" and "explore_edges body cs st = Inr st'"
  shows "I st'"
  using assms(2,3)
proof (induction cs arbitrary: st)
  case Nil
  then show ?case by simp
next
  case (Cons c cs)
  then show ?case
    by (auto split: sum.splits intro: assms(1))
qed

lemma get_distances_loop_invariant_aux:
  assumes "get_distances_loop self nodeA is_source mc st = Some y"
    and "I st"
    and "\<And>a n c s s'. I s \<Longrightarrow> explore_edge self nodeA is_source mc a n c s = Inr s' \<Longrightarrow> I s'"
    and "\<And>s q. I s \<Longrightarrow> I (s\<lparr>nodes_to_explore := q\<rparr>)"
    and "y = Inr st'"
  shows "I st'"
  using assms
proof (induction self nodeA is_source mc st y rule: get_distances_loop.raw_induct[rotated 1, consumes 1])
  case (1 f self nodeA is_source mc st y)
  note facts = "1"
  let ?st1 = "st\<lparr> nodes_to_explore := snd (pq_get (nodes_to_explore st)) \<rparr>"
  have Ist: "I st" and y: "y = Inr st'" using facts by blast+
  have body: "\<And>a n c s s'. I s \<Longrightarrow> explore_edge self nodeA is_source mc a n c s = Inr s' \<Longrightarrow> I s'"
    using facts by blast
  have pop: "\<And>s q. I s \<Longrightarrow> I (s\<lparr>nodes_to_explore := q\<rparr>)"
    using facts by blast
  have I1: "I ?st1" using Ist by (rule pop)
  have I2: "I st2"
    if e: "explore_edges (explore_edge self nodeA is_source mc a nn) cs ?st1 = Inr st2"
    for a nn cs st2
    by (rule explore_edges_invariant
               [where I = I and body = "explore_edge self nodeA is_source mc a nn", OF _ I1 e])
       (rule body)
  have IH: "\<And>x. I x \<Longrightarrow> f self nodeA is_source mc x = Some y \<Longrightarrow> I st'"
    using "1.IH" body pop y by blast
  have F: "(if nodes_to_explore st = [] then Some (Inr st)
      else
        let popped = fst (pq_get (nodes_to_explore st));
            dist_to_edge_endnode = fst popped;
            amount_msat = fst (snd popped);
            edge_endnode = snd (snd popped);
            st1 = ?st1
        in if truthy nodeA \<and> Some edge_endnode = nodeA then Some (Inr st1)
           else if dist_to_edge_endnode \<noteq> distance_from_start st1 edge_endnode then
             f self nodeA is_source mc st1
           else
             (case explore_edges
                     (explore_edge self nodeA is_source mc amount_msat edge_endnode)
                     (get_channels_for_node (channel_db self) edge_endnode (Some mc))
                     st1 of
                Inl e \<Rightarrow> Some (Inl e)
              | Inr st2 \<Rightarrow> f self nodeA is_source mc st2)) = Some y"
    using facts by blast
  let ?p = "fst (pq_get (nodes_to_explore st))"
  show ?case
  proof (cases "nodes_to_explore st = []")
    case True
    with F y Ist show ?thesis by simp
  next
    case False
    show ?thesis
    proof (cases "truthy nodeA \<and> Some (snd (snd ?p)) = nodeA")
      case True
      with F False y I1 show ?thesis by (simp add: Let_def)
    next
      case no_break: False
      show ?thesis
      proof (cases "fst ?p \<noteq> distance_from_start ?st1 (snd (snd ?p))")
        case True
        with F False no_break have "f self nodeA is_source mc ?st1 = Some y"
          by (simp add: Let_def)
        with I1 IH show ?thesis by blast
      next
        case live: False
        show ?thesis
        proof (cases "explore_edges
                        (explore_edge self nodeA is_source mc (fst (snd ?p)) (snd (snd ?p)))
                        (get_channels_for_node (channel_db self) (snd (snd ?p)) (Some mc)) ?st1")
          case (Inl e)
          with F False no_break live y show ?thesis by (simp add: Let_def)
        next
          case (Inr st2)
          with F False no_break live have "f self nodeA is_source mc st2 = Some y"
            by (simp add: Let_def)
          with I2[OF Inr] IH show ?thesis by blast
        qed
      qed
    qed
  qed
qed

lemma get_distances_loop_invariant:
  assumes run: "get_distances_loop self nodeA is_source mc st = Some (Inr st')"
    and init: "I st"
    and body: "\<And>a n c s s'. I s \<Longrightarrow> explore_edge self nodeA is_source mc a n c s = Inr s' \<Longrightarrow> I s'"
    and pop: "\<And>s q. I s \<Longrightarrow> I (s\<lparr>nodes_to_explore := q\<rparr>)"
  shows "I st'"
  using get_distances_loop_invariant_aux[OF run init body pop refl] .

lemma get_distances_prev_ok:
  assumes "get_distances self nodeA nodeB amt is_source mc = Some (Inr prev)"
  shows "\<forall>u v c. prev u = Some (v, c) \<longrightarrow>
           c \<notin> blacklist self \<and>
           get_policy_for_node (channel_db self) c (if is_source then u else v) (Some mc) \<noteq> None"
proof -
  from assms obtain r where
    r: "get_distances_loop self nodeA is_source mc (initial_state nodeB amt) = Some r"
       "map_sum id prev_node r = Inr prev"
    by (auto simp: get_distances_def)
  then obtain st' where
    run: "get_distances_loop self nodeA is_source mc (initial_state nodeB amt) = Some (Inr st')"
    and prev: "prev = prev_node st'"
    by (cases r) auto
  have "prev_ok self is_source mc st'"
  proof (rule get_distances_loop_invariant[OF run])
    show "prev_ok self is_source mc (initial_state nodeB amt)"
      by (simp add: prev_ok_def initial_state_def)
  next
    fix a n c s s'
    assume "prev_ok self is_source mc s" "explore_edge self nodeA is_source mc a n c s = Inr s'"
    then show "prev_ok self is_source mc s'" by (rule explore_edge_prev_ok)
  next
    fix s q
    assume "prev_ok self is_source mc s"
    then show "prev_ok self is_source mc (s\<lparr>nodes_to_explore := q\<rparr>)"
      by (simp add: prev_ok_def)
  qed
  then show ?thesis unfolding prev_ok_def prev .
qed


section \<open>Returned paths\<close>

lemma get_path_loop_backtrack_aux:
  assumes "get_path_loop prev nodeB u p = Some y" and "y = Inr p'"
  shows "\<exists>hs. p' = p @ hs \<and> backtrack prev nodeB u hs"
  using assms
proof (induction prev nodeB u p y rule: get_path_loop.raw_induct[rotated 1, consumes 1])
  case (1 f prev nodeB u p y)
  note facts = "1"
  have y: "y = Inr p'" using facts by blast
  have IH: "\<And>v q. f prev nodeB v q = Some y \<Longrightarrow> \<exists>hs. p' = q @ hs \<and> backtrack prev nodeB v hs"
    using "1.IH" y by blast
  have F: "(if u \<noteq> nodeB then
        (case prev u of
           None \<Rightarrow> Some (Inl (KeyError u))
         | Some hop \<Rightarrow> f prev nodeB (fst hop) (p @ [(fst hop, snd hop)]))
      else Some (Inr p)) = Some y"
    using facts by blast
  show ?case
  proof (cases "u = nodeB")
    case True
    with F y show ?thesis by simp
  next
    case False
    show ?thesis
    proof (cases "prev u")
      case None
      with F False y show ?thesis by simp
    next
      case (Some hop)
      with F False have "f prev nodeB (fst hop) (p @ [hop]) = Some y" by simp
      from IH[OF this] obtain hs where "p' = (p @ [hop]) @ hs" "backtrack prev nodeB (fst hop) hs"
        by blast
      with False Some have "p' = p @ (hop # hs) \<and> backtrack prev nodeB u (hop # hs)" by simp
      then show ?thesis by blast
    qed
  qed
qed

lemma get_path_backtrack:
  assumes "get_path nodeA nodeB prev = Some (Inr (Some p))"
  shows "backtrack prev nodeB nodeA p"
proof -
  from assms obtain r where r: "get_path_loop prev nodeB nodeA [] = Some r"
      "map_sum id Some r = Inr (Some p)"
    by (auto simp: get_path_def split: if_splits)
  then have "r = Inr p" by (cases r) auto
  with r get_path_loop_backtrack_aux[of prev nodeB nodeA "[]" r p] show ?thesis by auto
qed

lemma backtrack_unique:
  "backtrack prev nodeB u hs \<Longrightarrow> backtrack prev nodeB u hs' \<Longrightarrow> hs = hs'"
proof (induction hs arbitrary: u hs')
  case Nil
  then show ?case by (cases hs') auto
next
  case (Cons h hs)
  then show ?case by (cases hs') auto
qed

lemma backtrack_suffix:
  "backtrack prev nodeB u hs \<Longrightarrow> w \<in> fst ` set hs
   \<Longrightarrow> \<exists>hs'. backtrack prev nodeB w hs' \<and> length hs' < length hs"
proof (induction hs arbitrary: u)
  case Nil
  then show ?case by simp
next
  case (Cons h hs)
  show ?case
  proof (cases "w = fst h")
    case True
    with Cons.prems(1) show ?thesis by auto
  next
    case False
    with Cons.prems have "w \<in> fst ` set hs" "backtrack prev nodeB (fst h) hs" by auto
    from Cons.IH[OF this(2,1)] show ?thesis by auto
  qed
qed

lemma backtrack_distinct:
  "backtrack prev nodeB u hs \<Longrightarrow> distinct (u # map fst hs)"
proof (induction hs arbitrary: u)
  case Nil
  then show ?case by simp
next
  case (Cons h hs)
  from Cons.prems have tl: "backtrack prev nodeB (fst h) hs" by simp
  have "u \<notin> fst ` set (h # hs)"
  proof
    assume "u \<in> fst ` set (h # hs)"
    from backtrack_suffix[OF Cons.prems this]
    obtain hs' where "backtrack prev nodeB u hs'" "length hs' < length (h # hs)" by blast
    with backtrack_unique[OF Cons.prems this(1)] show False by simp
  qed
  with Cons.IH[OF tl] show ?case by simp
qed

lemma backtrack_nth:
  "backtrack prev nodeB u hs \<Longrightarrow> i < length hs \<Longrightarrow> prev ((u # map fst hs) ! i) = Some (hs ! i)"
proof (induction hs arbitrary: u i)
  case Nil
  then show ?case by simp
next
  case (Cons h hs)
  then show ?case by (cases i) auto
qed

lemma backtrack_set:
  "backtrack prev nodeB u hs \<Longrightarrow> h \<in> set hs \<Longrightarrow> \<exists>w. prev w = Some h"
  by (induction hs arbitrary: u) auto

lemma find_path_for_payment_result:
  assumes "find_path_for_payment self nodeA nodeB amt my_channels = Some (Inr (Some p))"
  shows "\<exists>prev. get_distances self (Some nodeA) nodeB amt True (local_view my_channels) = Some (Inr prev)
               \<and> backtrack prev nodeB nodeA p"
proof -
  from assms obtain prev where
    d: "get_distances self (Some nodeA) nodeB amt True (local_view my_channels) = Some (Inr prev)"
    and g: "get_path nodeA nodeB prev = Some (Inr (Some p))"
    by (auto simp: find_path_for_payment_def local_view_def Let_def split: option.splits sum.splits)
  from d get_path_backtrack[OF g] show ?thesis by blast
qed

lemma create_route_loop_projection:
  "create_route_loop self mc p prev route = Inr r
   \<Longrightarrow> map (\<lambda>e. (node_id e, short_channel_id e)) r
       = map (\<lambda>e. (node_id e, short_channel_id e)) route @ p"
  by (induction self mc p prev route rule: create_route_loop.induct)
     (auto simp: from_channel_policy_def normalize_def split: option.splits)

text \<open>
  Claim C5. A short channel id that is in the blacklist when \<^verbatim>\<open>find_path_for_payment\<close>
  is called occurs in no pair of the path it returns.
\<close>

theorem blacklisted_channel_not_in_path:
  assumes "scid \<in> blacklist self"
    and "find_path_for_payment self nodeA nodeB invoice_amount_msat my_channels = Some (Inr (Some p))"
  shows "scid \<notin> snd ` set p"
proof
  assume "scid \<in> snd ` set p"
  then obtain n where h: "(n, scid) \<in> set p" by auto
  from find_path_for_payment_result[OF assms(2)] obtain prev where
    d: "get_distances self (Some nodeA) nodeB invoice_amount_msat True (local_view my_channels)
          = Some (Inr prev)"
    and b: "backtrack prev nodeB nodeA p" by blast
  from backtrack_set[OF b h] obtain w where "prev w = Some (n, scid)" by blast
  with get_distances_prev_ok[OF d] have "scid \<notin> blacklist self" by blast
  with assms(1) show False by simp
qed

text \<open>
  On the graph with two disjoint paths the search takes channel 1; once channel 1 is
  blacklisted by \<^verbatim>\<open>add_to_blacklist\<close> it returns the path over X.
\<close>

theorem blacklisted_channel_not_in_path_witness:
  "find_path_for_payment diamond_finder node_A node_D 1000000 None
     = Some (Inr (Some [(node_B, 1), (node_D, 2)]))
   \<and> 1 \<in> blacklist (add_to_blacklist diamond_finder 1)
   \<and> find_path_for_payment (add_to_blacklist diamond_finder 1) node_A node_D 1000000 None
     = Some (Inr (Some [(node_X, 3), (node_D, 4)]))
   \<and> (1 :: ShortChannelID) \<notin> snd ` set [(node_X, 3), (node_D, 4)]"
proof -
  have a: "find_path_for_payment diamond_finder node_A node_D 1000000 None
             = Some (Inr (Some [(node_B, 1), (node_D, 2)]))"
    by (simp add: diamond_simps graph3_simps search_simps)
  have b: "1 \<in> blacklist (add_to_blacklist diamond_finder 1)"
    by (simp add: add_to_blacklist_def)
  have c: "find_path_for_payment (add_to_blacklist diamond_finder 1) node_A node_D 1000000 None
             = Some (Inr (Some [(node_X, 3), (node_D, 4)]))"
    by (simp add: diamond_simps graph3_simps search_simps)
  from a b c blacklisted_channel_not_in_path[OF b c] show ?thesis by blast
qed


text \<open>
  Claim C6 as stated fails. With the unannounced local channel 1 the search, given the
  caller's channels, returns the path over channels 1 and 2; the call
  \<^verbatim>\<open>create_route_from_path(P, source)\<close>, which leaves \<^verbatim>\<open>my_channels\<close> at \<^verbatim>\<open>None\<close>, then
  raises \<^verbatim>\<open>NoChannelPolicy(1)\<close>.
\<close>

theorem path_round_trip_counterexample:
  "find_path_for_payment private_finder node_A node_D 1000000 (Some own_channels)
     = Some (Inr (Some [(node_B, 1), (node_D, 2)]))
   \<and> create_route_from_path private_finder (Some [(node_B, 1), (node_D, 2)]) node_A None
     = Inl (NoChannelPolicy 1)"
  by (simp add: private_simps search_simps create_route_from_path_def)

lemma path_round_trip_general:
  assumes "find_path_for_payment self nodeA nodeB invoice_amount_msat my_channels = Some (Inr (Some p))"
    and "resolves_like self my_channels' (Some (local_view my_channels))"
  shows "\<exists>route. create_route_from_path self (Some p) nodeA my_channels' = Inr route
                \<and> p = map (\<lambda>e. (node_id e, short_channel_id e)) route"
proof -
  from find_path_for_payment_result[OF assms(1)] obtain prev where
    d: "get_distances self (Some nodeA) nodeB invoice_amount_msat True (local_view my_channels)
          = Some (Inr prev)"
    and b: "backtrack prev nodeB nodeA p" by blast
  have "hop_policy self my_channels' nodeA p i \<noteq> None" if i: "i < length p" for i
  proof -
    from backtrack_nth[OF b i]
    have "prev ((nodeA # map fst p) ! i) = Some (fst (p ! i), snd (p ! i))" by simp
    with get_distances_prev_ok[OF d]
    have "get_policy_for_node (channel_db self) (snd (p ! i)) ((nodeA # map fst p) ! i)
            (Some (local_view my_channels)) \<noteq> None"
      by (metis (full_types))
    with assms(2) show ?thesis
      unfolding hop_policy_def resolves_like_def by simp
  qed
  then have "\<not> (\<exists>i<length p. hop_policy self my_channels' nodeA p i = None)" by simp
  then have "\<not> (\<exists>scid. create_route_loop self my_channels' p nodeA [] = Inl (NoChannelPolicy scid))"
    by (simp add: create_route_loop_raises_iff)
  with create_route_loop_cases[of self my_channels' p nodeA "[]"]
  obtain route where r: "create_route_loop self my_channels' p nodeA [] = Inr route" by blast
  from create_route_loop_projection[OF r] r show ?thesis
    by (simp add: create_route_from_path_def)
qed

text \<open>
  Claim C6, amended. For a path \<open>p\<close> returned by \<^verbatim>\<open>find_path_for_payment\<close>,
  \<^verbatim>\<open>create_route_from_path\<close> on the same snapshot, from the same source and with the
  local channels the search used (the empty dictionary when the search was given
  \<^verbatim>\<open>None\<close>) returns a route, and \<open>p\<close> is the list of the pairs
  \<^verbatim>\<open>(node_id, short_channel_id)\<close> of its edges. The same holds for every other
  \<^verbatim>\<open>my_channels\<close> argument, \<^verbatim>\<open>None\<close> included, with which the database resolves every
  policy that it resolves with the local channels of the search.
\<close>

theorem path_round_trip:
  assumes "find_path_for_payment self nodeA nodeB invoice_amount_msat my_channels = Some (Inr (Some p))"
  shows "(\<exists>route. create_route_from_path self (Some p) nodeA (Some (local_view my_channels)) = Inr route
                \<and> p = map (\<lambda>e. (node_id e, short_channel_id e)) route)
       \<and> (\<forall>my_channels'. resolves_like self my_channels' (Some (local_view my_channels)) \<longrightarrow>
            (\<exists>route. create_route_from_path self (Some p) nodeA my_channels' = Inr route
                \<and> p = map (\<lambda>e. (node_id e, short_channel_id e)) route))"
proof -
  have "resolves_like self (Some (local_view my_channels)) (Some (local_view my_channels))"
    by (simp add: resolves_like_def)
  with path_round_trip_general[OF assms] show ?thesis by blast
qed

text \<open>
  With the unannounced channel and the caller's channels passed to both calls; and on
  the three-node graph, whose database ignores \<^verbatim>\<open>my_channels\<close>, with \<^verbatim>\<open>None\<close> in both.
\<close>

theorem path_round_trip_witness:
  "find_path_for_payment private_finder node_A node_D 1000000 (Some own_channels)
     = Some (Inr (Some [(node_B, 1), (node_D, 2)]))
   \<and> (\<exists>route. create_route_from_path private_finder (Some [(node_B, 1), (node_D, 2)]) node_A
                  (Some (local_view (Some own_channels))) = Inr route
              \<and> [(node_B, 1), (node_D, 2)] = map (\<lambda>e. (node_id e, short_channel_id e)) route)
   \<and> find_path_for_payment finder3 node_A node_D 1000000 None
     = Some (Inr (Some [(node_B, 1), (node_D, 2)]))
   \<and> resolves_like finder3 None (Some (local_view None))
   \<and> (\<exists>route. create_route_from_path finder3 (Some [(node_B, 1), (node_D, 2)]) node_A None
                = Inr route
              \<and> [(node_B, 1), (node_D, 2)] = map (\<lambda>e. (node_id e, short_channel_id e)) route)"
proof -
  have a: "find_path_for_payment private_finder node_A node_D 1000000 (Some own_channels)
             = Some (Inr (Some [(node_B, 1), (node_D, 2)]))"
    by (simp add: private_simps search_simps)
  have b: "find_path_for_payment finder3 node_A node_D 1000000 None
             = Some (Inr (Some [(node_B, 1), (node_D, 2)]))"
    by (simp add: graph3_simps search_simps)
  have c: "resolves_like finder3 None (Some (local_view None))"
    by (simp add: resolves_like_def finder3_def graph3_def)
  from a b c path_round_trip[OF a] path_round_trip[OF b] show ?thesis by blast
qed


text \<open>
  Claim C7. No path returned by \<^verbatim>\<open>find_path_for_payment\<close> visits a node twice: the
  source followed by the node ids of the returned pairs are pairwise distinct.
\<close>

theorem path_visits_no_node_twice:
  assumes "find_path_for_payment self nodeA nodeB invoice_amount_msat my_channels = Some (Inr (Some p))"
  shows "distinct (nodeA # map fst p)"
  using find_path_for_payment_result[OF assms] backtrack_distinct by blast

theorem path_visits_no_node_twice_witness:
  "find_path_for_payment finder3 node_A node_D 1000000 None
     = Some (Inr (Some [(node_B, 1), (node_D, 2)]))
   \<and> distinct (node_A # map fst [(node_B, 1 :: ShortChannelID), (node_D, 2)])"
proof -
  have a: "find_path_for_payment finder3 node_A node_D 1000000 None
             = Some (Inr (Some [(node_B, 1), (node_D, 2)]))"
    by (simp add: graph3_simps search_simps)
  from a path_visits_no_node_twice[OF a] show ?thesis by blast
qed

section \<open>Termination of the search\<close>

lemma cost_le_Finite [simp]: "(Finite a \<le> Finite b) = (a \<le> b)"
  by (auto simp: less_eq_cost_def)

lemma cost_le_Infinite [simp]: "d \<le> Infinite"
  by (cases d) (auto simp: less_eq_cost_def)

















lemma live_queue_update [simp]: "live (st\<lparr>nodes_to_explore := q\<rparr>) w = live st w"
  by (rule ext) (simp add: live_def)

























end
